theory Spec2Isabelle
  imports Complex_Main
begin

section \<open>Values of the program\<close>

text \<open>
  The program is the TypeScript class \<open>AssembleTask\<close> together with its value class
  \<open>Transformation\<close>. A JavaScript \<open>number\<close> that holds a coordinate is modelled as a
  \<open>real\<close> (exact arithmetic; the methods of \<open>Transformation\<close> are modelled a second time
  with the rounding of double precision); a
  \<open>number\<close> that holds a step index or a count is modelled as an \<open>int\<close>. The tuple types
  \<open>Vec3 = [x, y, z]\<close> and \<open>Quat = [w, x, y, z]\<close> are tuples of reals.
\<close>

type_synonym Vec3 = "real \<times> real \<times> real"
type_synonym Quat = "real \<times> real \<times> real \<times> real"

text \<open>
  Every \<open>throw new Error(msg)\<close> of the source is \<open>Error msg\<close>. \<open>TypeError\<close> is what the
  JavaScript runtime raises when a property of \<open>undefined\<close> is read, when \<open>undefined\<close> is
  destructured, or when \<open>undefined\<close> is spread into an array literal.
\<close>

datatype error = Error string | TypeError

definition bind_err :: "error + 'a \<Rightarrow> ('a \<Rightarrow> error + 'b) \<Rightarrow> error + 'b" where
  "bind_err r f = (case r of Inl e \<Rightarrow> Inl e | Inr x \<Rightarrow> f x)"

text \<open>
  \<open>xs.map(f)\<close> where the callback may throw: the first callback that throws (from the left)
  ends the whole \<open>map\<close>.
\<close>

fun map_err :: "('a \<Rightarrow> error + 'b) \<Rightarrow> 'a list \<Rightarrow> error + 'b list" where
  "map_err f [] = Inr []"
| "map_err f (x # xs) =
     (case f x of
        Inl e \<Rightarrow> Inl e
      | Inr y \<Rightarrow> (case map_err f xs of Inl e \<Rightarrow> Inl e | Inr ys \<Rightarrow> Inr (y # ys)))"

text \<open>
  Reading an array: \<open>xs[i]\<close> is \<open>undefined\<close> (here \<open>None\<close>) when \<open>i\<close> is not an index of
  \<open>xs\<close>; it never throws by itself.
\<close>

definition array_get :: "'a list \<Rightarrow> nat \<Rightarrow> 'a option" where
  "array_get xs n = (if n < length xs then Some (xs ! n) else None)"


text \<open>
  Writing an array: \<open>xs[i] = v\<close> replaces the element at an index of \<open>xs\<close>, extends \<open>xs\<close> with
  holes when \<open>i\<close> is past the end, and leaves the elements alone when \<open>i\<close> is negative (the
  value then becomes a plain property of the array object).
\<close>

definition array_set :: "'a list \<Rightarrow> int \<Rightarrow> 'a \<Rightarrow> 'a \<Rightarrow> 'a list" where
  "array_set xs i hole v =
     (if i < 0 then xs
      else if nat i < length xs then xs[nat i := v]
      else xs @ replicate (nat i - length xs) hole @ [v])"

subsection \<open>Strings\<close>

text \<open>\<open>s.split(sep)\<close> for a one-character separator: never empty, \<open>"".split(".") = [""]\<close>.\<close>

fun split_str :: "char \<Rightarrow> string \<Rightarrow> string list" where
  "split_str sep [] = [[]]"
| "split_str sep (c # cs) =
     (if c = sep then [] # split_str sep cs
      else (case split_str sep cs of
              [] \<Rightarrow> [[c]]
            | w # ws \<Rightarrow> (c # w) # ws))"

text \<open>\<open>name.split(".").slice(-1)[0]\<close>: what follows the last dot, or the whole name.\<close>

definition extension :: "string \<Rightarrow> string" where
  "extension nm = last (split_str CHR ''.'' nm)"

definition endsWith :: "string \<Rightarrow> string \<Rightarrow> bool" where
  "endsWith s suffix = (length suffix \<le> length s \<and> drop (length s - length suffix) s = suffix)"

fun join :: "string \<Rightarrow> string list \<Rightarrow> string" where
  "join sep [] = []"
| "join sep [x] = x"
| "join sep (x # y # ys) = x @ sep @ join sep (y # ys)"

section \<open>Transformation\<close>

text \<open>
  \<open>class Transformation { constructor(public translation: Vec3, public quaternion: Quat) }\<close>.
  The task builds transformations with \<open>new Transformation(trans, rotation[idx])\<close>, and
  \<open>rotation[idx]\<close> is \<open>undefined\<close> when the rotation array is shorter than the translation
  array; so the quaternion of a stored transformation is optional, \<open>None\<close> being
  \<open>undefined\<close>.
\<close>

record Transformation =
  translation :: Vec3
  quaternion :: "Quat option"

fun multiplyQuaternions :: "Quat \<Rightarrow> Quat \<Rightarrow> Quat" where
  "multiplyQuaternions (w1, x1, y1, z1) (w2, x2, y2, z2) =
     (w1 * w2 - x1 * x2 - y1 * y2 - z1 * z2,
      w1 * x2 + x1 * w2 + y1 * z2 - z1 * y2,
      w1 * y2 - x1 * z2 + y1 * w2 + z1 * x2,
      w1 * z2 + x1 * y2 - y1 * x2 + z1 * w2)"

fun rotateVector :: "Quat \<Rightarrow> Vec3 \<Rightarrow> Vec3" where
  "rotateVector (q0, q1, q2, q3) (vx, vy, vz) =
     (let qConjugate = (q0, - q1, - q2, - q3);
          vQuat = (0, vx, vy, vz);
          rotatedQuat =
            multiplyQuaternions (multiplyQuaternions (q0, q1, q2, q3) vQuat) qConjugate
      in case rotatedQuat of (r0, r1, r2, r3) \<Rightarrow> (r1, r2, r3))"

text \<open>
  \<open>inverse()\<close> reads \<open>this.quaternion[0]\<close> first, which throws a TypeError when the
  quaternion is \<open>undefined\<close>. (The name \<open>inverse\<close> is taken by the field operation.)
\<close>

definition inverse_tr :: "Transformation \<Rightarrow> error + Transformation" where
  "inverse_tr this =
     (case quaternion this of
        None \<Rightarrow> Inl TypeError
      | Some (q0, q1, q2, q3) \<Rightarrow>
          (let qConjugate = (q0, - q1, - q2, - q3);
               rotatedTranslation = rotateVector qConjugate (translation this)
           in case rotatedTranslation of
                (r0, r1, r2) \<Rightarrow>
                  Inr \<lparr>translation = (- r0, - r1, - r2), quaternion = Some qConjugate\<rparr>))"

text \<open>
  \<open>applyTransformation(transformation)\<close> first calls
  \<open>multiplyQuaternions(this.quaternion, transformation.quaternion)\<close>, whose destructuring
  \<open>const [w1, x1, y1, z1] = q1\<close> throws a TypeError on \<open>undefined\<close>.
\<close>

definition applyTransformation ::
  "Transformation \<Rightarrow> Transformation \<Rightarrow> error + Transformation" where
  "applyTransformation this transformation =
     (case (quaternion this, quaternion transformation) of
        (Some q1, Some q2) \<Rightarrow>
          (let newQuaternion = multiplyQuaternions q1 q2;
               rotatedTranslation = rotateVector q1 (translation transformation)
           in case (translation this, rotatedTranslation) of
                ((t0, t1, t2), (r0, r1, r2)) \<Rightarrow>
                  Inr \<lparr>translation = (t0 + r0, t1 + r1, t2 + r2),
                       quaternion = Some newQuaternion\<rparr>)
      | _ \<Rightarrow> Inl TypeError)"



subsection \<open>The same methods in double precision\<close>












section \<open>The assembly task\<close>

datatype AssembleStatus = INIT | REQUESTED | QUEUED | PROGRESSING | COMPLETED | FAILED

datatype SampleStrategy = Uniform | Poisson

text \<open>
  \<open>type AssembleSettings\<close>. An optional field \<open>f?: string\<close> is \<open>None\<close> when the object has
  no such field (or holds \<open>undefined\<close> there) and \<open>Some s\<close> when it holds the string \<open>s\<close>.
\<close>

record AssembleSettings =
  samplePoints :: int
  steps :: int
  seed :: int
  maxIterations :: int
  oneStepInit :: bool
  sampleStrategy :: SampleStrategy
  loraCheckpoint :: "string option"
  ckpt :: "string option"
  dataCollection :: bool

text \<open>\<open>!s\<close> for an optional string: true for \<open>undefined\<close> and for the empty string.\<close>

definition falsy :: "string option \<Rightarrow> bool" where
  "falsy v = (case v of None \<Rightarrow> True | Some s \<Rightarrow> s = [])"

text \<open>\<open>type AssembleTaskEvent\<close>: the event name with its arguments.\<close>

datatype AssembleTaskEvent =
    Ev_step int int
  | Ev_statusUpdate AssembleStatus "(int \<times> int) option"
  | Ev_meshScale real
  | Ev_recvPointClouds "Vec3 list list"
  | Ev_recvFractureSurfaces "Vec3 list list"
  | Ev_recvMetrics "(string \<times> real) list"

text \<open>Only the name of a \<open>File\<close> is read by the task.\<close>

record File =
  name :: string

text \<open>
  What the task does to the outside, in order: \<open>this.emit(...)\<close> and
  \<open>this.gradioClient.submit(endpoint, [files, paths, meshType, settings])\<close>, whose first
  argument is \<open>undefined\<close> (\<open>None\<close>) when the paths on the server are used.
\<close>

datatype effect =
    Emit AssembleTaskEvent
  | Submit string "File list option" "string list" string AssembleSettings

text \<open>
  The objects handed to \<open>setObject\<close> belong to the rendering library; the model keeps of
  each the size of its bounding box, which is all \<open>setObject\<close> computes from it. A slot of
  \<open>_meshObj\<close> is a hole, \<open>null\<close>, or an object.
\<close>

datatype MeshObj = Group Vec3 | BufferGeometry Vec3

datatype MeshSlot = Hole | Null | Loaded MeshObj

record AssembleTask =
  meshesFile :: "File list"
  meshesFilePathOnServer :: "string list"
  meshType :: string
  status :: AssembleStatus
  initial_transformations :: "Transformation list"
  originalTransformations :: "Transformation list list"
  transformations :: "Transformation list list"
  pointClouds :: "Vec3 list list"
  fractureSurfaces :: "Vec3 list list"
  currentStep :: int
  totalSteps :: int
  meshObj :: "MeshSlot list"
  meshScale :: real
  pieces :: "string list"

text \<open>
  A method returns the task after the call, the effects of the call in order, and the
  exception that ended it, if any. In every method of the source a \<open>throw\<close> comes before the
  first assignment to a field, so a call that throws returns the task it was given.
\<close>

type_synonym outcome = "AssembleTask \<times> effect list \<times> error option"

subsection \<open>constructor\<close>

definition new_AssembleTask :: "File list \<Rightarrow> string list \<Rightarrow> error + AssembleTask" where
  "new_AssembleTask files paths =
     (if length files < 2 then Inl (Error ''At least two meshes are required'')
      else
        (let mt = extension (name (hd files)) in
         if mt \<notin> set [''obj'', ''ply'']
         then Inl (Error ''Only .obj and .ply files are supported'')
         else if \<not> list_all (\<lambda>meshesFile. endsWith (name meshesFile) mt) files
         then Inl (Error ''All meshes must be of the same type'')
         else Inr \<lparr>meshesFile = files,
                   meshesFilePathOnServer = paths,
                   meshType = mt,
                   status = INIT,
                   initial_transformations = [],
                   originalTransformations = [],
                   transformations = [],
                   pointClouds = [],
                   fractureSurfaces = [],
                   currentStep = - 2,
                   totalSteps = 0,
                   meshObj = replicate (length files) Null,
                   meshScale = 1,
                   pieces = map name files\<rparr>))"

subsection \<open>startAssemble\<close>

text \<open>
  Lines 210 to 252 of \<open>startAssemble\<close>: everything before the loop over the messages. The
  settings object is the caller's; the method deletes fields of it, so the settings after the
  call are part of the result.
\<close>

definition beginAssemble ::
  "AssembleTask \<Rightarrow> AssembleSettings \<Rightarrow> AssembleTask \<times> AssembleSettings \<times> effect list \<times> error option"
  where
  "beginAssemble this settings =
     (if status this = REQUESTED \<or> status this = QUEUED \<or> status this = PROGRESSING
      then (this, settings, [], Some (Error ''Task has already started''))
      else
        (let settings1 =
               (if falsy (loraCheckpoint settings) then settings\<lparr>loraCheckpoint := None\<rparr>
                else settings);
             settings2 =
               (if falsy (ckpt settings1) then settings1\<lparr>ckpt := None\<rparr> else settings1);
             total =
               steps settings2 * maxIterations settings2 + (if oneStepInit settings2 then 1 else 0);
             this1 = this\<lparr>status := REQUESTED,
                          transformations := [],
                          originalTransformations := [],
                          initial_transformations := [],
                          currentStep := - 2,
                          totalSteps := total\<rparr>;
             submission =
               (if length (meshesFilePathOnServer this1) = length (meshesFile this1)
                then Submit ''/inference'' None (meshesFilePathOnServer this1)
                       (meshType this1) settings2
                else Submit ''/inference'' (Some (meshesFile this1)) []
                       (meshType this1) settings2)
         in (this1, settings2,
             [Emit (Ev_statusUpdate REQUESTED None), Emit (Ev_step (- 2) total), submission],
             None)))"

text \<open>The payloads of a data message, \<open>type AssembleMsg\<close>.\<close>

datatype AssembleMsg =
    AssembleMeshScaleMsg real
  | AssembleInputMsg "Vec3 list list" "Vec3 list" "Quat list"
  | AssembleFractureSegmentationMsg "Vec3 list list"
  | AssembleTransformationMsg "Vec3 list" "Quat list" int int
  | AssembleMetricsMsg "(string \<times> real) list"

text \<open>
  The messages of the submission: a status message with its stage, a data message with its
  array of outputs, a log message, and any other type, which no \<open>case\<close> of the switch takes.
\<close>

datatype GradioMsg = StatusMsg string | DataMsg "AssembleMsg list" | LogMsg | OtherMsg

text \<open>
  The callback of the first \<open>map\<close> of case "transformation":
  \<open>new Transformation(trans, rotation[idx]).applyTransformation(
     this.initial_transformations[idx].inverse())\<close>.
\<close>

definition normalized ::
  "Transformation list \<Rightarrow> Quat list \<Rightarrow> nat \<times> Vec3 \<Rightarrow> error + Transformation" where
  "normalized initial rotation p =
     (case p of
        (idx, tr) \<Rightarrow>
          (case array_get initial idx of
             None \<Rightarrow> Inl TypeError
           | Some ini \<Rightarrow>
               bind_err (inverse_tr ini)
                 (applyTransformation \<lparr>translation = tr, quaternion = array_get rotation idx\<rparr>)))"

text \<open>The callback \<open>(trans, idx) => new Transformation(trans, rotation[idx])\<close>.\<close>

definition raw_pose :: "Quat list \<Rightarrow> nat \<times> Vec3 \<Rightarrow> Transformation" where
  "raw_pose rotation p =
     (case p of (idx, tr) \<Rightarrow> \<lparr>translation = tr, quaternion = array_get rotation idx\<rparr>)"

text \<open>The inner switch, on \<open>data.type\<close>.\<close>

fun handleData :: "AssembleTask \<Rightarrow> AssembleMsg \<Rightarrow> outcome" where
  "handleData this (AssembleMeshScaleMsg v) =
     (if v \<noteq> meshScale this
      then (this\<lparr>meshScale := v\<rparr>, [Emit (Ev_meshScale v)], None)
      else (this, [], None))"
| "handleData this (AssembleInputMsg pcs initial_translation initial_rotation) =
     (this\<lparr>initial_transformations :=
              map (raw_pose initial_rotation) (enumerate 0 initial_translation),
            pointClouds := pcs,
            currentStep := - 1\<rparr>,
      [Emit (Ev_recvPointClouds pcs), Emit (Ev_step (- 1) (totalSteps this))],
      None)"
| "handleData this (AssembleFractureSegmentationMsg d) =
     (if length (transformations this) \<le> 5
      then (this\<lparr>fractureSurfaces := d\<rparr>, [Emit (Ev_recvFractureSurfaces d)], None)
      else (this, [], None))"
| "handleData this (AssembleTransformationMsg trs rotation stp iter) =
     (case map_err (normalized (initial_transformations this) rotation) (enumerate 0 trs) of
        Inl e \<Rightarrow> (this, [], Some e)
      | Inr transformation \<Rightarrow>
          (let originalTransformation = map (raw_pose rotation) (enumerate 0 trs);
               ts = transformations this @ [transformation]
           in (this\<lparr>transformations := ts,
                     originalTransformations :=
                       originalTransformations this @ [originalTransformation],
                     currentStep := int (length ts) - 1\<rparr>,
               [Emit (Ev_step (int (length ts) - 1) (totalSteps this))],
               None)))"
| "handleData this (AssembleMetricsMsg m) = (this, [Emit (Ev_recvMetrics m)], None)"

text \<open>
  The outer switch, on \<open>msg.type\<close>. The four tests of the stage are four \<open>if\<close>s in a row;
  \<open>msg.data[0]\<close> of an empty array is \<open>undefined\<close>, and reading its \<open>type\<close> throws.
\<close>

definition on_stage :: "string \<Rightarrow> string \<Rightarrow> AssembleStatus \<Rightarrow> bool
    \<Rightarrow> AssembleTask \<times> effect list \<Rightarrow> AssembleTask \<times> effect list" where
  "on_stage stage expected st with_step acc =
     (case acc of
        (this, effs) \<Rightarrow>
          if stage = expected
          then (this\<lparr>status := st\<rparr>,
                effs @ [Emit (Ev_statusUpdate st
                   (if with_step then Some (currentStep this + 1, totalSteps this) else None))])
          else (this, effs))"

fun handleMsg :: "AssembleTask \<Rightarrow> GradioMsg \<Rightarrow> outcome" where
  "handleMsg this (StatusMsg stage) =
     (case on_stage stage ''complete'' COMPLETED False
            (on_stage stage ''error'' FAILED False
              (on_stage stage ''generating'' PROGRESSING True
                (on_stage stage ''pending'' QUEUED False (this, [])))) of
        (this', effs) \<Rightarrow> (this', effs, None))"
| "handleMsg this (DataMsg ds) =
     (case ds of [] \<Rightarrow> (this, [], Some TypeError) | d # _ \<Rightarrow> handleData this d)"
| "handleMsg this LogMsg = (this, [], None)"
| "handleMsg this OtherMsg = (this, [], None)"

text \<open>
  \<open>for await (const msg of submission)\<close>, over the messages the submission yields before it
  ends. An exception leaves the loop, and the method.
\<close>

fun processMsgs :: "AssembleTask \<Rightarrow> GradioMsg list \<Rightarrow> outcome" where
  "processMsgs this [] = (this, [], None)"
| "processMsgs this (msg # msgs) =
     (case handleMsg this msg of
        (this1, effs, Some e) \<Rightarrow> (this1, effs, Some e)
      | (this1, effs, None) \<Rightarrow>
          (case processMsgs this1 msgs of
             (this2, effs', r) \<Rightarrow> (this2, effs @ effs', r)))"

text \<open>The whole method, for a submission that yields \<open>msgs\<close>.\<close>

definition startAssemble ::
  "AssembleTask \<Rightarrow> AssembleSettings \<Rightarrow> GradioMsg list
     \<Rightarrow> AssembleTask \<times> AssembleSettings \<times> effect list \<times> error option" where
  "startAssemble this settings msgs =
     (case beginAssemble this settings of
        (this1, settings1, effs, Some e) \<Rightarrow> (this1, settings1, effs, Some e)
      | (this1, settings1, effs, None) \<Rightarrow>
          (case processMsgs this1 msgs of
             (this2, effs', r) \<Rightarrow> (this2, settings1, effs @ effs', r)))"

subsection \<open>The cursor and the queries\<close>

definition set_currentStep :: "AssembleTask \<Rightarrow> int \<Rightarrow> outcome" where
  "set_currentStep this step =
     (if step < - 2 \<or> step \<ge> int (length (transformations this))
      then (this, [], Some (Error ''Invalid step index''))
      else (this\<lparr>currentStep := step\<rparr>, [Emit (Ev_step step (totalSteps this))], None))"


subsection \<open>setObject\<close>

fun object_size :: "MeshSlot \<Rightarrow> real option" where
  "object_size (Loaded (Group (sx, sy, sz))) = Some (max (max sx sy) sz)"
| "object_size (Loaded (BufferGeometry (sx, sy, sz))) = Some (max (max sx sy) sz)"
| "object_size _ = None"

definition setObject :: "AssembleTask \<Rightarrow> int \<Rightarrow> MeshObj \<Rightarrow> outcome" where
  "setObject this index obj =
     (let objs = array_set (meshObj this) index Hole (Loaded obj);
          this1 = this\<lparr>meshObj := objs\<rparr>
      in if list_all (\<lambda>obj. obj \<noteq> Null) objs
         then
           (let maxSize =
                  foldl (\<lambda>m obj. case object_size obj of None \<Rightarrow> m | Some s \<Rightarrow> max m s) 1 objs
            in (this1\<lparr>meshScale := maxSize\<rparr>, [Emit (Ev_meshScale maxSize)], None))
         else (this1, [], None))"

subsection \<open>exportJson\<close>

text \<open>
  The object \<open>data\<close> that \<open>exportJson\<close> builds and hands to \<open>JSON.stringify\<close>; the Blob
  it returns holds the serialisation of this object and nothing else. The spread
  \<open>[...trans.translation, ...trans.quaternion]\<close> throws a TypeError when the quaternion is
  \<open>undefined\<close>.
\<close>

record ExportData =
  doc_name :: string
  num_parts :: nat
  gt_trans_rots :: "real list list"
  pred_trans_rots :: "real list list list"
  removal_pieces :: string
  redundant_pieces :: string
  doc_pieces :: string
  mesh_scale :: real
  pointclouds :: "Vec3 list list"

definition flatten_tr :: "Transformation \<Rightarrow> error + real list" where
  "flatten_tr tr =
     (case (translation tr, quaternion tr) of
        ((tx, ty, tz), Some (qw, qx, qy, qz)) \<Rightarrow> Inr [tx, ty, tz, qw, qx, qy, qz]
      | (_, None) \<Rightarrow> Inl TypeError)"

definition exportJson :: "AssembleTask \<Rightarrow> string \<Rightarrow> error + ExportData" where
  "exportJson this nm =
     (case map_err flatten_tr (initial_transformations this) of
        Inl e \<Rightarrow> Inl e
      | Inr gt \<Rightarrow>
          (case map_err (map_err flatten_tr) (originalTransformations this) of
             Inl e \<Rightarrow> Inl e
           | Inr pred \<Rightarrow>
               Inr \<lparr>doc_name = nm,
                    num_parts = length (meshesFile this),
                    gt_trans_rots = gt,
                    pred_trans_rots = pred,
                    removal_pieces = [],
                    redundant_pieces = [],
                    doc_pieces = join '','' (pieces this),
                    mesh_scale = meshScale this,
                    pointclouds = pointClouds this\<rparr>))"

subsection \<open>Calls on a task\<close>

text \<open>
  The calls that change a task after its construction. \<open>startAssemble\<close> suspends at every
  message, so a call of the setter or of \<open>setObject\<close> can come between two messages: the
  beginning of \<open>startAssemble\<close> and the handling of one message are calls of their own.
  The queries \<open>getTransformation\<close> and \<open>exportJson\<close> assign to no field.
\<close>

datatype call =
    Call_startAssemble AssembleSettings
  | Deliver GradioMsg
  | Assign_currentStep int
  | Call_setObject int MeshObj

fun after_call :: "AssembleTask \<Rightarrow> call \<Rightarrow> AssembleTask" where
  "after_call this (Call_startAssemble settings) = fst (beginAssemble this settings)"
| "after_call this (Deliver msg) = fst (handleMsg this msg)"
| "after_call this (Assign_currentStep step) = fst (set_currentStep this step)"
| "after_call this (Call_setObject index obj) = fst (setObject this index obj)"

definition after_calls :: "AssembleTask \<Rightarrow> call list \<Rightarrow> AssembleTask" where
  "after_calls this calls = foldl after_call this calls"

fun is_Submit :: "effect \<Rightarrow> bool" where
  "is_Submit (Submit endpoint files paths mt settings) = True"
| "is_Submit (Emit ev) = False"

definition running :: "AssembleTask \<Rightarrow> bool" where
  "running this =
     (status this = REQUESTED \<or> status this = QUEUED \<or> status this = PROGRESSING)"

subsection \<open>The invariant of the two histories\<close>

definition history_aligned :: "AssembleTask \<Rightarrow> bool" where
  "history_aligned this =
     (map length (transformations this) = map length (originalTransformations this))"

subsection \<open>A run with two fragments\<close>

text \<open>
  Two files, the settings of a run, an "input" message with the initial poses
  \<open>([0, 0, 0], [1, 0, 0, 0])\<close> and \<open>([1, 0, 0], [1, 0, 0, 0])\<close>, and a "transformation"
  message; \<open>demo_task\<close> is the task as constructed, \<open>demo_recorded\<close> the task after
  \<open>startAssemble\<close> has handled the two messages.
\<close>

definition demo_files :: "File list" where
  "demo_files = [\<lparr>name = ''a.obj''\<rparr>, \<lparr>name = ''b.obj''\<rparr>]"

definition demo_settings :: AssembleSettings where
  "demo_settings =
     \<lparr>samplePoints = 5000, steps = 20, seed = 41, maxIterations = 1, oneStepInit = False,
      sampleStrategy = Poisson, loraCheckpoint = Some [], ckpt = Some ''base'',
      dataCollection = True\<rparr>"

definition demo_input :: AssembleMsg where
  "demo_input = AssembleInputMsg [] [(0, 0, 0), (1, 0, 0)] [(1, 0, 0, 0), (1, 0, 0, 0)]"

definition demo_transformation :: AssembleMsg where
  "demo_transformation =
     AssembleTransformationMsg [(0, 0, 0), (2, 0, 0)] [(1, 0, 0, 0), (0, 1, 0, 0)] 0 0"

definition demo_task :: AssembleTask where
  "demo_task =
     \<lparr>meshesFile = demo_files, meshesFilePathOnServer = [], meshType = ''obj'',
      status = INIT, initial_transformations = [], originalTransformations = [],
      transformations = [], pointClouds = [], fractureSurfaces = [],
      currentStep = - 2, totalSteps = 0, meshObj = [Null, Null], meshScale = 1,
      pieces = [''a.obj'', ''b.obj'']\<rparr>"

definition demo_started :: AssembleTask where
  "demo_started =
     demo_task\<lparr>status := REQUESTED, totalSteps := 20,
       initial_transformations :=
         [\<lparr>translation = (0, 0, 0), quaternion = Some (1, 0, 0, 0)\<rparr>,
          \<lparr>translation = (1, 0, 0), quaternion = Some (1, 0, 0, 0)\<rparr>],
       currentStep := - 1\<rparr>"

definition demo_recorded :: AssembleTask where
  "demo_recorded =
     demo_started\<lparr>
       originalTransformations :=
         [[\<lparr>translation = (0, 0, 0), quaternion = Some (1, 0, 0, 0)\<rparr>,
           \<lparr>translation = (2, 0, 0), quaternion = Some (0, 1, 0, 0)\<rparr>]],
       transformations :=
         [[\<lparr>translation = (0, 0, 0), quaternion = Some (1, 0, 0, 0)\<rparr>,
           \<lparr>translation = (1, 0, 0), quaternion = Some (0, 1, 0, 0)\<rparr>]],
       currentStep := 0\<rparr>"

definition demo_calls :: "call list" where
  "demo_calls =
     [Call_startAssemble demo_settings,
      Deliver (DataMsg [demo_input]),
      Deliver (DataMsg [demo_transformation])]"

text \<open>
  A run on the same two files in which the backend reports one pose only, in its "input"
  message and in its "transformation" message.
\<close>

definition short_calls :: "call list" where
  "short_calls =
     [Call_startAssemble demo_settings,
      Deliver (DataMsg [AssembleInputMsg [] [(0, 0, 0)] [(1, 0, 0, 0)]]),
      Deliver (DataMsg [AssembleTransformationMsg [(3, 0, 0)] [(1, 0, 0, 0)] 0 0])]"

subsection \<open>Notions used in the statements\<close>

text \<open>The settings object after lines 218 to 224 of \<open>startAssemble\<close>.\<close>

definition cleaned :: "AssembleSettings \<Rightarrow> AssembleSettings" where
  "cleaned settings =
     settings\<lparr>loraCheckpoint :=
                 (if falsy (loraCheckpoint settings) then None else loraCheckpoint settings),
               ckpt := (if falsy (ckpt settings) then None else ckpt settings)\<rparr>"

text \<open>The call of \<open>gradioClient.submit\<close> of lines 238 to 252, for a settings object.\<close>

definition submission_of :: "AssembleTask \<Rightarrow> AssembleSettings \<Rightarrow> effect" where
  "submission_of this settings =
     (if length (meshesFilePathOnServer this) = length (meshesFile this)
      then Submit ''/inference'' None (meshesFilePathOnServer this) (meshType this) settings
      else Submit ''/inference'' (Some (meshesFile this)) [] (meshType this) settings)"

text \<open>\<open>pieces\<close> is still the list of the file names, as the constructor set it.\<close>

definition names_kept :: "AssembleTask \<Rightarrow> bool" where
  "names_kept this = (pieces this = map name (meshesFile this))"

section \<open>The transformation algebra\<close>








subsection \<open>Double precision\<close>












section \<open>The assembly task: lemmas\<close>

lemma map_err_all2:
  "map_err f xs = Inr ys \<Longrightarrow> list_all2 (\<lambda>x y. f x = Inr y) xs ys"
  by (induction xs arbitrary: ys) (auto split: sum.splits)

lemma map_err_length: "map_err f xs = Inr ys \<Longrightarrow> length ys = length xs"
  using list_all2_lengthD [OF map_err_all2] by fastforce

lemma map_err_nth:
  assumes "map_err f xs = Inr ys" and "k < length xs"
  shows "f (xs ! k) = Inr (ys ! k)"
  using list_all2_nthD [OF map_err_all2 [OF assms(1)] assms(2)] by simp

lemma map_err_total:
  "(\<And>x. x \<in> set xs \<Longrightarrow> \<exists>y. f x = Inr y) \<Longrightarrow> \<exists>ys. map_err f xs = Inr ys"
proof (induction xs)
  case Nil
  then show ?case by simp
next
  case (Cons x xs)
  then obtain y where y: "f x = Inr y" by auto
  from Cons obtain ys where "map_err f xs = Inr ys" by auto
  with y show ?case by simp
qed

lemma inverse_tr_defined:
  assumes "quaternion t \<noteq> None"
  shows "\<exists>inv. inverse_tr t = Inr inv \<and> quaternion inv \<noteq> None"
  using assms by (auto simp: inverse_tr_def Let_def split: prod.splits)

lemma applyTransformation_defined:
  assumes "quaternion a \<noteq> None" and "quaternion b \<noteq> None"
  shows "\<exists>r. applyTransformation a b = Inr r \<and> quaternion r \<noteq> None"
  using assms by (auto simp: applyTransformation_def Let_def split: prod.splits)

lemma normalized_defined:
  assumes "idx < length rotation" and "idx < length initial"
      and "quaternion (initial ! idx) \<noteq> None"
  shows "\<exists>inv r. inverse_tr (initial ! idx) = Inr inv
           \<and> applyTransformation \<lparr>translation = tr, quaternion = Some (rotation ! idx)\<rparr> inv = Inr r
           \<and> normalized initial rotation (idx, tr) = Inr r"
proof -
  from inverse_tr_defined [OF assms(3)] obtain inv
    where inv: "inverse_tr (initial ! idx) = Inr inv" "quaternion inv \<noteq> None" by auto
  from applyTransformation_defined [of "\<lparr>translation = tr, quaternion = Some (rotation ! idx)\<rparr>" inv]
    inv(2)
  obtain r where r: "applyTransformation \<lparr>translation = tr, quaternion = Some (rotation ! idx)\<rparr> inv = Inr r"
    by auto
  show ?thesis
    using assms(1,2) inv(1) r by (simp add: normalized_def array_get_def bind_err_def)
qed

lemma enumerate0_nth: "k < length xs \<Longrightarrow> enumerate 0 xs ! k = (k, xs ! k)"
  by (simp add: nth_enumerate_eq)

text \<open>
  An "input" message that carries a rotation for each of its translations records an initial
  transformation with its rotation for each of them.
\<close>

lemma input_msg_records_initial:
  assumes "length initial_translation \<le> length initial_rotation"
  shows "length (initial_transformations
                   (fst (handleData this
                      (AssembleInputMsg pcs initial_translation initial_rotation)))) =
           length initial_translation
       \<and> (\<forall>idx < length initial_translation.
             initial_transformations
               (fst (handleData this
                  (AssembleInputMsg pcs initial_translation initial_rotation))) ! idx =
             \<lparr>translation = initial_translation ! idx,
              quaternion = Some (initial_rotation ! idx)\<rparr>)"
  using assms by (simp add: enumerate0_nth raw_pose_def array_get_def)

text \<open>
  Claim C3, amended. A "transformation" message that carries a rotation for each of its
  translations, handled when an initial transformation with its rotation is recorded for
  each of them, appends to \<open>originalTransformations\<close> the raw poses built from
  translation and rotation, appends to \<open>transformations\<close> the poses
  \<open>raw.applyTransformation(initial.inverse())\<close>, sets the cursor to the new last index,
  and emits exactly one step notification with that index and \<open>totalSteps\<close>.
\<close>

theorem transformation_msg_appends:
  assumes rot: "length trs \<le> length rotation"
      and ini: "length trs \<le> length (initial_transformations this)"
      and defd: "\<forall>idx < length trs. quaternion (initial_transformations this ! idx) \<noteq> None"
  shows "\<exists>raw norm.
      handleData this (AssembleTransformationMsg trs rotation stp iter) =
        (this\<lparr>transformations := transformations this @ [norm],
               originalTransformations := originalTransformations this @ [raw],
               currentStep := int (length (transformations this))\<rparr>,
         [Emit (Ev_step (int (length (transformations this))) (totalSteps this))], None)
    \<and> length raw = length trs \<and> length norm = length trs
    \<and> (\<forall>idx < length trs.
         raw ! idx = \<lparr>translation = trs ! idx, quaternion = Some (rotation ! idx)\<rparr>
       \<and> (\<exists>inv. inverse_tr (initial_transformations this ! idx) = Inr inv
              \<and> applyTransformation (raw ! idx) inv = Inr (norm ! idx)))"
proof -
  let ?f = "normalized (initial_transformations this) rotation"
  let ?raw = "map (raw_pose rotation) (enumerate 0 trs)"
  have each: "\<exists>y. ?f p = Inr y" if "p \<in> set (enumerate 0 trs)" for p
  proof -
    from that obtain k where k: "k < length trs" "p = (k, trs ! k)"
      by (auto simp: in_set_conv_nth enumerate0_nth)
    from normalized_defined [of k rotation "initial_transformations this" "trs ! k"]
      k(1) rot ini defd
    show ?thesis unfolding k(2) by auto
  qed
  from map_err_total [of "enumerate 0 trs" ?f, OF each] obtain norm
    where norm: "map_err ?f (enumerate 0 trs) = Inr norm" by auto
  have len_norm: "length norm = length trs"
    using map_err_length [OF norm] by simp
  have raw_nth: "?raw ! idx = \<lparr>translation = trs ! idx, quaternion = Some (rotation ! idx)\<rparr>"
    if "idx < length trs" for idx
    using that rot by (simp add: enumerate0_nth raw_pose_def array_get_def)
  have norm_nth: "\<exists>inv. inverse_tr (initial_transformations this ! idx) = Inr inv
              \<and> applyTransformation (?raw ! idx) inv = Inr (norm ! idx)"
    if "idx < length trs" for idx
  proof -
    from normalized_defined [of idx rotation "initial_transformations this" "trs ! idx"]
      that rot ini defd
    obtain inv r where ir: "inverse_tr (initial_transformations this ! idx) = Inr inv"
      "applyTransformation \<lparr>translation = trs ! idx, quaternion = Some (rotation ! idx)\<rparr> inv = Inr r"
      "?f (idx, trs ! idx) = Inr r"
      by auto
    from map_err_nth [OF norm, of idx] that have "?f (idx, trs ! idx) = Inr (norm ! idx)"
      by (simp add: enumerate0_nth)
    with ir(3) have "r = norm ! idx" by simp
    with ir(1,2) raw_nth [OF that] show ?thesis by simp
  qed
  have run: "handleData this (AssembleTransformationMsg trs rotation stp iter) =
        (this\<lparr>transformations := transformations this @ [norm],
               originalTransformations := originalTransformations this @ [?raw],
               currentStep := int (length (transformations this))\<rparr>,
         [Emit (Ev_step (int (length (transformations this))) (totalSteps this))], None)"
    by (simp add: norm Let_def)
  show ?thesis
    using run len_norm raw_nth norm_nth
    by (intro exI [of _ ?raw] exI [of _ norm]) simp
qed





text \<open>
  Claim C5. Assigning \<open>currentStep\<close> throws "Invalid step index" exactly when the step is
  below \<open>-2\<close> or at least the length of \<open>transformations\<close>, and then changes nothing; for a
  step from \<open>-2\<close> to the last recorded index it sets the cursor and emits exactly one step
  notification.
\<close>

theorem set_currentStep_domain:
  assumes "set_currentStep this step = (this', effs, thrown)"
  shows "(thrown = Some (Error ''Invalid step index'') \<longleftrightarrow>
            step < - 2 \<or> step \<ge> int (length (transformations this)))
       \<and> (thrown \<noteq> None \<longrightarrow>
            thrown = Some (Error ''Invalid step index'') \<and> this' = this \<and> effs = [])
       \<and> (- 2 \<le> step \<and> step \<le> int (length (transformations this)) - 1 \<longrightarrow>
            thrown = None \<and> this' = this\<lparr>currentStep := step\<rparr> \<and> currentStep this' = step
            \<and> effs = [Emit (Ev_step step (totalSteps this))])"
  using assms by (auto simp: set_currentStep_def split: if_splits)

text \<open>
  Claim C7. A "fracture_segmentation" message that arrives while fewer than 6 steps are
  recorded overwrites \<open>fractureSurfaces\<close> and emits \<open>recvFractureSurfaces\<close>; with 6 or more
  steps recorded it changes nothing and emits nothing.
\<close>

theorem fracture_segmentation_window:
  "(length (transformations this) < 6 \<longrightarrow>
      handleData this (AssembleFractureSegmentationMsg d) =
        (this\<lparr>fractureSurfaces := d\<rparr>, [Emit (Ev_recvFractureSurfaces d)], None)
      \<and> handleMsg this (DataMsg (AssembleFractureSegmentationMsg d # rest)) =
        (this\<lparr>fractureSurfaces := d\<rparr>, [Emit (Ev_recvFractureSurfaces d)], None))
   \<and> (6 \<le> length (transformations this) \<longrightarrow>
      handleData this (AssembleFractureSegmentationMsg d) = (this, [], None)
      \<and> handleMsg this (DataMsg (AssembleFractureSegmentationMsg d # rest)) = (this, [], None))"
  by auto

subsection \<open>The run with two fragments, evaluated\<close>

lemma demo_task_constructed: "new_AssembleTask demo_files [] = Inr demo_task"
  by (simp add: new_AssembleTask_def demo_files_def demo_task_def endsWith_def extension_def
        Let_def)

lemma demo_recorded_step:
  "handleData demo_started demo_transformation =
     (demo_recorded, [Emit (Ev_step 0 20)], None)"
  by (simp add: demo_started_def demo_task_def demo_transformation_def demo_recorded_def
        raw_pose_def normalized_def array_get_def inverse_tr_def applyTransformation_def
        bind_err_def Let_def)

lemma demo_started_reached:
  "after_calls demo_task [Call_startAssemble demo_settings, Deliver (DataMsg [demo_input])] =
     demo_started"
  by (simp add: after_calls_def beginAssemble_def demo_task_def demo_settings_def falsy_def
        demo_input_def demo_started_def demo_files_def raw_pose_def array_get_def Let_def)

lemma demo_recorded_reached: "after_calls demo_task demo_calls = demo_recorded"
proof -
  have "after_calls demo_task demo_calls =
          fst (handleData
                 (after_calls demo_task
                    [Call_startAssemble demo_settings, Deliver (DataMsg [demo_input])])
                 demo_transformation)"
    by (simp add: after_calls_def demo_calls_def)
  then show ?thesis
    by (simp only: demo_started_reached demo_recorded_step fst_conv)
qed

lemma demo_started_fields:
  "initial_transformations demo_started =
     [\<lparr>translation = (0, 0, 0), quaternion = Some (1, 0, 0, 0)\<rparr>,
      \<lparr>translation = (1, 0, 0), quaternion = Some (1, 0, 0, 0)\<rparr>]"
  "transformations demo_started = []"
  "originalTransformations demo_started = []"
  "totalSteps demo_started = 20"
  by (simp_all add: demo_started_def demo_task_def)

lemma demo_recorded_fields:
  "transformations demo_recorded =
     [[\<lparr>translation = (0, 0, 0), quaternion = Some (1, 0, 0, 0)\<rparr>,
       \<lparr>translation = (1, 0, 0), quaternion = Some (0, 1, 0, 0)\<rparr>]]"
  "originalTransformations demo_recorded =
     [[\<lparr>translation = (0, 0, 0), quaternion = Some (1, 0, 0, 0)\<rparr>,
       \<lparr>translation = (2, 0, 0), quaternion = Some (0, 1, 0, 0)\<rparr>]]"
  "initial_transformations demo_recorded =
     [\<lparr>translation = (0, 0, 0), quaternion = Some (1, 0, 0, 0)\<rparr>,
      \<lparr>translation = (1, 0, 0), quaternion = Some (1, 0, 0, 0)\<rparr>]"
  "currentStep demo_recorded = 0"
  "totalSteps demo_recorded = 20"
  "meshesFile demo_recorded = demo_files"
  "pieces demo_recorded = [''a.obj'', ''b.obj'']"
  "meshScale demo_recorded = 1"
  "pointClouds demo_recorded = []"
  by (simp_all add: demo_recorded_def demo_started_def demo_task_def)


theorem set_currentStep_domain_witness:
  "set_currentStep demo_recorded 0 =
     (demo_recorded\<lparr>currentStep := 0\<rparr>, [Emit (Ev_step 0 20)], None)
   \<and> set_currentStep demo_recorded (- 2) =
     (demo_recorded\<lparr>currentStep := - 2\<rparr>, [Emit (Ev_step (- 2) 20)], None)
   \<and> set_currentStep demo_recorded 1 = (demo_recorded, [], Some (Error ''Invalid step index''))
   \<and> set_currentStep demo_recorded (- 3) = (demo_recorded, [], Some (Error ''Invalid step index''))"
proof -
  have e1: "set_currentStep demo_recorded 0 =
     (demo_recorded\<lparr>currentStep := 0\<rparr>, [Emit (Ev_step 0 20)], None)"
    by (simp add: set_currentStep_def demo_recorded_fields)
  have e2: "set_currentStep demo_recorded 1 =
     (demo_recorded, [], Some (Error ''Invalid step index''))"
    by (simp add: set_currentStep_def demo_recorded_fields)
  have e3: "set_currentStep demo_recorded (- 2) =
     (demo_recorded\<lparr>currentStep := - 2\<rparr>, [Emit (Ev_step (- 2) 20)], None)"
    by (simp add: set_currentStep_def demo_recorded_fields)
  have e4: "set_currentStep demo_recorded (- 3) =
     (demo_recorded, [], Some (Error ''Invalid step index''))"
    by (simp add: set_currentStep_def demo_recorded_fields)
  note set_currentStep_domain [OF e1] set_currentStep_domain [OF e2]
  with e1 e2 e3 e4 show ?thesis by blast
qed

theorem fracture_segmentation_window_witness:
  "handleData demo_recorded (AssembleFractureSegmentationMsg [[(1, 2, 3)]]) =
     (demo_recorded\<lparr>fractureSurfaces := [[(1, 2, 3)]]\<rparr>,
      [Emit (Ev_recvFractureSurfaces [[(1, 2, 3)]])], None)
   \<and> handleData (demo_recorded\<lparr>transformations := replicate 6 []\<rparr>)
       (AssembleFractureSegmentationMsg [[(1, 2, 3)]]) =
     (demo_recorded\<lparr>transformations := replicate 6 []\<rparr>, [], None)"
  using fracture_segmentation_window [of demo_recorded "[[(1, 2, 3)]]" "[]"]
    fracture_segmentation_window
      [of "demo_recorded\<lparr>transformations := replicate 6 []\<rparr>" "[[(1, 2, 3)]]" "[]"]
  by (simp add: demo_recorded_fields)

theorem transformation_msg_appends_witness:
  "length [(0, 0, 0), (2, 0, 0) :: Vec3] \<le> length [(1, 0, 0, 0), (0, 1, 0, 0) :: Quat]
   \<and> length [(0, 0, 0), (2, 0, 0) :: Vec3] \<le> length (initial_transformations demo_started)
   \<and> quaternion (initial_transformations demo_started ! 0) \<noteq> None
   \<and> quaternion (initial_transformations demo_started ! 1) \<noteq> None
   \<and> snd (handleData demo_started demo_transformation) = ([Emit (Ev_step 0 20)], None)
   \<and> currentStep (fst (handleData demo_started demo_transformation)) = 0
   \<and> handleData demo_started demo_transformation = (demo_recorded, [Emit (Ev_step 0 20)], None)"
proof -
  have h1: "length [(0, 0, 0), (2, 0, 0) :: Vec3] \<le> length [(1, 0, 0, 0), (0, 1, 0, 0) :: Quat]"
    by simp
  have h2: "length [(0, 0, 0), (2, 0, 0) :: Vec3] \<le> length (initial_transformations demo_started)"
    by (simp add: demo_started_fields)
  have h3: "\<forall>idx < length [(0, 0, 0), (2, 0, 0) :: Vec3].
             quaternion (initial_transformations demo_started ! idx) \<noteq> None"
    by (simp add: demo_started_fields less_Suc_eq)
  from transformation_msg_appends [OF h1 h2 h3, of 0 0]
  obtain raw norm where run:
    "handleData demo_started demo_transformation =
       (demo_started\<lparr>transformations := transformations demo_started @ [norm],
          originalTransformations := originalTransformations demo_started @ [raw],
          currentStep := int (length (transformations demo_started))\<rparr>,
        [Emit (Ev_step (int (length (transformations demo_started))) (totalSteps demo_started))],
        None)"
    unfolding demo_transformation_def by blast
  have a: "snd (handleData demo_started demo_transformation) = ([Emit (Ev_step 0 20)], None)"
    by (simp add: run demo_started_fields)
  have b: "currentStep (fst (handleData demo_started demo_transformation)) = 0"
    by (simp add: run demo_started_fields)
  show ?thesis
    using h1 h2 a b demo_recorded_step by (simp add: demo_started_fields)
qed

text \<open>
  Claim C3 as stated fails for a message with fewer rotations than translations: after an
  "input" message that recorded the initial transformations of both fragments, the second
  pose of the message has no quaternion, \<open>applyTransformation\<close> throws, and nothing is
  appended or emitted.
\<close>

theorem transformation_msg_short_rotation_counterexample:
  "after_calls demo_task [Call_startAssemble demo_settings, Deliver (DataMsg [demo_input])] =
     demo_started
   \<and> length (initial_transformations demo_started) = 2
   \<and> handleData demo_started
        (AssembleTransformationMsg [(0, 0, 0), (2, 0, 0)] [(1, 0, 0, 0)] 0 0) =
       (demo_started, [], Some TypeError)"
  by (simp add: demo_started_reached demo_started_fields normalized_def array_get_def
        inverse_tr_def applyTransformation_def bind_err_def Let_def)

section \<open>startAssemble\<close>

lemma on_stage_no_Submit:
  "filter is_Submit (snd acc) = [] \<Longrightarrow>
     filter is_Submit (snd (on_stage stage expected st with_step acc)) = []"
  by (cases acc) (simp add: on_stage_def)

lemma handleData_no_Submit: "filter is_Submit (fst (snd (handleData this d))) = []"
  by (cases d) (simp_all add: Let_def split: sum.splits)

lemma handleMsg_no_Submit: "filter is_Submit (fst (snd (handleMsg this msg))) = []"
proof (cases msg)
  case (StatusMsg stage)
  have "filter is_Submit (snd (on_stage stage ''complete'' COMPLETED False
            (on_stage stage ''error'' FAILED False
              (on_stage stage ''generating'' PROGRESSING True
                (on_stage stage ''pending'' QUEUED False (this, [])))))) = []"
    by (intro on_stage_no_Submit) simp
  then show ?thesis
    using StatusMsg by (auto split: prod.splits)
next
  case (DataMsg ds)
  then show ?thesis
    by (cases ds) (simp_all add: handleData_no_Submit)
qed simp_all

lemma processMsgs_no_Submit: "filter is_Submit (fst (snd (processMsgs this msgs))) = []"
proof (induction msgs arbitrary: this)
  case Nil
  then show ?case by simp
next
  case (Cons msg msgs)
  obtain t1 e1 r1 where h: "handleMsg this msg = (t1, e1, r1)"
    by (cases "handleMsg this msg") auto
  have e1: "filter is_Submit e1 = []"
    using handleMsg_no_Submit [of this msg] by (simp add: h)
  show ?case
  proof (cases r1)
    case None
    obtain t2 e2 r2 where p: "processMsgs t1 msgs = (t2, e2, r2)"
      by (cases "processMsgs t1 msgs") auto
    have "filter is_Submit e2 = []"
      using Cons.IH [of t1] by (simp add: p)
    with e1 show ?thesis by (simp add: h None p)
  next
    case (Some e)
    with e1 show ?thesis by (simp add: h)
  qed
qed

lemma beginAssemble_running:
  "running this \<Longrightarrow>
     beginAssemble this settings = (this, settings, [], Some (Error ''Task has already started''))"
  by (auto simp: beginAssemble_def running_def)



lemma beginAssemble_idle:
  assumes "\<not> running this"
  shows "beginAssemble this settings =
     (this\<lparr>status := REQUESTED, transformations := [], originalTransformations := [],
           initial_transformations := [], currentStep := - 2,
           totalSteps := steps settings * maxIterations settings
                          + (if oneStepInit settings then 1 else 0)\<rparr>,
      cleaned settings,
      [Emit (Ev_statusUpdate REQUESTED None),
       Emit (Ev_step (- 2) (steps settings * maxIterations settings
                          + (if oneStepInit settings then 1 else 0))),
       submission_of this (cleaned settings)],
      None)"
  using assms
  by (simp add: beginAssemble_def running_def Let_def cleaned_def submission_of_def)

lemma is_Submit_submission_of: "is_Submit (submission_of this settings)"
  by (simp add: submission_of_def)

text \<open>
  Claim C4. \<open>startAssemble\<close> throws "Task has already started" exactly when the status is
  REQUESTED, QUEUED or PROGRESSING, and then changes nothing. Otherwise it empties
  \<open>transformations\<close>, \<open>originalTransformations\<close> and \<open>initial_transformations\<close>, sets the
  cursor to \<open>-2\<close>, sets \<open>totalSteps\<close> to
  \<open>steps * maxIterations + (oneStepInit ? 1 : 0)\<close>, sets the status to REQUESTED, and emits
  \<open>statusUpdate(REQUESTED)\<close>, then \<open>step(-2, totalSteps)\<close>, then submits; whatever messages
  follow, the whole call submits exactly once.
\<close>

theorem startAssemble_guard_and_reset:
  assumes "beginAssemble this settings = (this', settings', effs, thrown)"
  shows "(thrown = Some (Error ''Task has already started'') \<longleftrightarrow>
            status this = REQUESTED \<or> status this = QUEUED \<or> status this = PROGRESSING)
       \<and> (thrown \<noteq> None \<longrightarrow>
            thrown = Some (Error ''Task has already started'') \<and> this' = this \<and> effs = [])
       \<and> (thrown = None \<longrightarrow>
            this' = this\<lparr>status := REQUESTED, transformations := [],
                         originalTransformations := [], initial_transformations := [],
                         currentStep := - 2,
                         totalSteps := steps settings * maxIterations settings
                                        + (if oneStepInit settings then 1 else 0)\<rparr>
          \<and> transformations this' = [] \<and> originalTransformations this' = []
          \<and> initial_transformations this' = [] \<and> currentStep this' = - 2
          \<and> totalSteps this' =
              steps settings * maxIterations settings + (if oneStepInit settings then 1 else 0)
          \<and> status this' = REQUESTED
          \<and> (\<exists>submission. is_Submit submission
                \<and> effs = [Emit (Ev_statusUpdate REQUESTED None),
                           Emit (Ev_step (- 2) (totalSteps this')), submission])
          \<and> (\<forall>msgs. take 3 (fst (snd (snd (startAssemble this settings msgs)))) = effs
                \<and> length (filter is_Submit (fst (snd (snd (startAssemble this settings msgs))))) = 1))"
proof (cases "running this")
  case True
  with assms beginAssemble_running [OF True, of settings] show ?thesis
    by (auto simp: running_def)
next
  case False
  note b = beginAssemble_idle [OF False, of settings]
  let ?total = "steps settings * maxIterations settings + (if oneStepInit settings then 1 else 0)"
  let ?this1 = "this\<lparr>status := REQUESTED, transformations := [],
                      originalTransformations := [], initial_transformations := [],
                      currentStep := - 2, totalSteps := ?total\<rparr>"
  let ?effs = "[Emit (Ev_statusUpdate REQUESTED None), Emit (Ev_step (- 2) ?total),
                submission_of this (cleaned settings)]"
  from assms [unfolded b] have eqs: "this' = ?this1" "settings' = cleaned settings"
    "effs = ?effs" "thrown = None"
    by blast+
  have run: "fst (snd (snd (startAssemble this settings msgs))) =
               ?effs @ fst (snd (processMsgs ?this1 msgs))" for msgs
    unfolding startAssemble_def b by (simp split: prod.splits option.splits)
  have tail: "take 3 (fst (snd (snd (startAssemble this settings msgs)))) = ?effs
                \<and> length (filter is_Submit (fst (snd (snd (startAssemble this settings msgs))))) = 1"
    for msgs
    unfolding run by (simp add: processMsgs_no_Submit is_Submit_submission_of)
  have notrun: "\<not> (status this = REQUESTED \<or> status this = QUEUED \<or> status this = PROGRESSING)"
    using False by (simp add: running_def)
  show ?thesis
    unfolding eqs using notrun tail
    by (simp add: is_Submit_submission_of)
qed

text \<open>
  Claim C10, amended. A call of \<open>startAssemble\<close> that is not rejected as already running
  deletes \<open>loraCheckpoint\<close> and \<open>ckpt\<close> from the caller's settings object when they are
  absent or empty, and leaves them alone otherwise; the caller sees the object so changed
  after the call, and the same object is what is submitted.
\<close>

theorem startAssemble_deletes_empty_checkpoints:
  assumes "\<not> running this"
  shows "fst (snd (beginAssemble this settings)) = cleaned settings
       \<and> fst (snd (startAssemble this settings msgs)) = cleaned settings
       \<and> (falsy (loraCheckpoint settings) \<longrightarrow>
             loraCheckpoint (fst (snd (startAssemble this settings msgs))) = None)
       \<and> (falsy (ckpt settings) \<longrightarrow> ckpt (fst (snd (startAssemble this settings msgs))) = None)
       \<and> (\<not> falsy (loraCheckpoint settings) \<longrightarrow>
             loraCheckpoint (fst (snd (startAssemble this settings msgs)))
               = loraCheckpoint settings)
       \<and> (\<not> falsy (ckpt settings) \<longrightarrow>
             ckpt (fst (snd (startAssemble this settings msgs))) = ckpt settings)
       \<and> fst (snd (snd (beginAssemble this settings))) ! 2 = submission_of this (cleaned settings)"
proof -
  note b = beginAssemble_idle [OF assms, of settings]
  have s: "fst (snd (startAssemble this settings msgs)) = cleaned settings"
    by (simp add: startAssemble_def b split: prod.splits)
  show ?thesis
    by (simp add: s b) (simp add: cleaned_def)
qed

text \<open>
  Claim C10 as stated fails for a call on a running task: the call is rejected before the
  deletions, and the empty \<open>loraCheckpoint\<close> is still in the settings object afterwards.
\<close>

theorem running_call_keeps_settings_counterexample:
  "running (demo_task\<lparr>status := PROGRESSING\<rparr>)
   \<and> falsy (loraCheckpoint demo_settings)
   \<and> loraCheckpoint (fst (snd (startAssemble (demo_task\<lparr>status := PROGRESSING\<rparr>) demo_settings [])))
       = Some []"
  by (simp add: running_def startAssemble_def beginAssemble_def demo_settings_def falsy_def)

theorem startAssemble_guard_and_reset_witness:
  "beginAssemble demo_task demo_settings =
     (demo_task\<lparr>status := REQUESTED, transformations := [], originalTransformations := [],
        initial_transformations := [], currentStep := - 2, totalSteps := 20\<rparr>,
      cleaned demo_settings,
      [Emit (Ev_statusUpdate REQUESTED None), Emit (Ev_step (- 2) 20),
       Submit ''/inference'' (Some demo_files) [] ''obj'' (cleaned demo_settings)],
      None)
   \<and> beginAssemble (demo_task\<lparr>status := QUEUED\<rparr>) demo_settings =
     (demo_task\<lparr>status := QUEUED\<rparr>, demo_settings, [],
      Some (Error ''Task has already started''))
   \<and> length (filter is_Submit
        (fst (snd (snd (startAssemble demo_task demo_settings
           [StatusMsg ''pending'', DataMsg [demo_input], DataMsg [demo_transformation]]))))) = 1"
proof -
  have idle: "\<not> running demo_task"
    by (simp add: running_def demo_task_def)
  have busy: "running (demo_task\<lparr>status := QUEUED\<rparr>)"
    by (simp add: running_def)
  have e1: "beginAssemble demo_task demo_settings =
     (demo_task\<lparr>status := REQUESTED, transformations := [], originalTransformations := [],
        initial_transformations := [], currentStep := - 2, totalSteps := 20\<rparr>,
      cleaned demo_settings,
      [Emit (Ev_statusUpdate REQUESTED None), Emit (Ev_step (- 2) 20),
       Submit ''/inference'' (Some demo_files) [] ''obj'' (cleaned demo_settings)],
      None)"
    unfolding beginAssemble_idle [OF idle]
    by (simp add: submission_of_def demo_task_def demo_files_def demo_settings_def)
  note e2 = beginAssemble_running [OF busy, of demo_settings]
  from startAssemble_guard_and_reset [OF e1]
  have "length (filter is_Submit
        (fst (snd (snd (startAssemble demo_task demo_settings
           [StatusMsg ''pending'', DataMsg [demo_input], DataMsg [demo_transformation]]))))) = 1"
    by blast
  with e1 e2 show ?thesis by blast
qed

theorem startAssemble_deletes_empty_checkpoints_witness:
  "\<not> running demo_task
   \<and> falsy (loraCheckpoint demo_settings) \<and> \<not> falsy (ckpt demo_settings)
   \<and> loraCheckpoint (fst (snd (startAssemble demo_task demo_settings [DataMsg [demo_input]])))
       = None
   \<and> ckpt (fst (snd (startAssemble demo_task demo_settings [DataMsg [demo_input]])))
       = Some ''base''"
proof -
  have idle: "\<not> running demo_task"
    by (simp add: running_def demo_task_def)
  have f: "falsy (loraCheckpoint demo_settings)" "\<not> falsy (ckpt demo_settings)"
    "ckpt demo_settings = Some ''base''"
    by (simp_all add: falsy_def demo_settings_def)
  note t = startAssemble_deletes_empty_checkpoints
    [OF idle, of demo_settings "[DataMsg [demo_input]]"]
  from t f(1) have a:
    "loraCheckpoint (fst (snd (startAssemble demo_task demo_settings [DataMsg [demo_input]])))
       = None"
    by blast
  from t f(2) have b:
    "ckpt (fst (snd (startAssemble demo_task demo_settings [DataMsg [demo_input]])))
       = ckpt demo_settings"
    by blast
  from idle f(1,2) a b [unfolded f(3)] show ?thesis by blast
qed

section \<open>The constructor\<close>

lemma split_str_nonempty: "split_str sep s \<noteq> []"
  by (induction s) (auto split: list.splits)

lemma endsWith_Cons: "endsWith s suffix \<Longrightarrow> endsWith (c # s) suffix"
  by (auto simp: endsWith_def Suc_diff_le)

lemma endsWith_refl: "endsWith s s"
  by (simp add: endsWith_def)

lemma endsWith_Nil: "endsWith s []"
  by (simp add: endsWith_def)

lemma split_str_single: "split_str sep s = [w] \<Longrightarrow> s = w"
proof (induction s arbitrary: w)
  case Nil
  then show ?case by simp
next
  case (Cons c cs)
  obtain v vs where sp: "split_str sep cs = v # vs"
    using split_str_nonempty [of sep cs] by (cases "split_str sep cs") auto
  from Cons.prems sp have "c \<noteq> sep" "vs = []" "w = c # v"
    by (auto split: if_splits)
  with Cons.IH [of v] sp show ?case by simp
qed

lemma endsWith_last_split: "endsWith s (last (split_str sep s))"
proof (induction s)
  case Nil
  then show ?case by (simp add: endsWith_def)
next
  case (Cons c cs)
  obtain w ws where sp: "split_str sep cs = w # ws"
    using split_str_nonempty [of sep cs] by (cases "split_str sep cs") auto
  show ?case
  proof (cases "c = sep \<or> ws \<noteq> []")
    case True
    then have "last (split_str sep (c # cs)) = last (split_str sep cs)"
      using sp by auto
    with Cons.IH show ?thesis by (simp only: endsWith_Cons)
  next
    case False
    with sp have "cs = w" by (simp add: split_str_single)
    with False sp show ?thesis by (simp add: endsWith_refl)
  qed
qed

lemma endsWith_extension: "endsWith nm (extension nm)"
  by (simp add: extension_def endsWith_last_split)

lemma constructor_fails_iff:
  "isl (new_AssembleTask files paths) \<longleftrightarrow>
     length files < 2
     \<or> extension (name (hd files)) \<notin> {''obj'', ''ply''}
     \<or> (\<exists>f \<in> set files. \<not> endsWith (name f) (extension (name (hd files))))"
  by (auto simp: new_AssembleTask_def Let_def list_all_iff)

lemma constructor_accepts_uniform:
  assumes "2 \<le> length files"
      and "e = ''obj'' \<or> e = ''ply''"
      and "\<forall>f \<in> set files. extension (name f) = e"
  shows "\<exists>this. new_AssembleTask files paths = Inr this \<and> meshType this = e
           \<and> pieces this = map name files"
proof -
  from assms(1) have "files \<noteq> []" by auto
  then have hd: "hd files \<in> set files" by simp
  with assms(3) have mt: "extension (name (hd files)) = e" by blast
  have "endsWith (name f) e" if "f \<in> set files" for f
    using endsWith_extension [of "name f"] assms(3) that by auto
  then show ?thesis
    using assms(1,2) mt by (auto simp: new_AssembleTask_def Let_def list_all_iff)
qed

lemma constructor_rejects_other_extension:
  assumes "f \<in> set files" and "\<not> endsWith (name f) (extension (name (hd files)))"
  shows "isl (new_AssembleTask files paths)"
  using assms by (auto simp: constructor_fails_iff)

text \<open>
  Claim C6. The constructor is meant to reject files whose extension differs from the first
  file's; it tests \<open>name.endsWith(meshType)\<close>, so it accepts \<open>a.obj\<close> with \<open>b.xobj\<close>, whose
  extension (by the rule the constructor applies to the first file) is \<open>xobj\<close>.
\<close>

theorem constructor_accepts_longer_extension:
  "new_AssembleTask [\<lparr>name = ''a.obj''\<rparr>, \<lparr>name = ''b.xobj''\<rparr>] [] =
     Inr \<lparr>meshesFile = [\<lparr>name = ''a.obj''\<rparr>, \<lparr>name = ''b.xobj''\<rparr>],
          meshesFilePathOnServer = [], meshType = ''obj'', status = INIT,
          initial_transformations = [], originalTransformations = [], transformations = [],
          pointClouds = [], fractureSurfaces = [], currentStep = - 2, totalSteps = 0,
          meshObj = [Null, Null], meshScale = 1, pieces = [''a.obj'', ''b.xobj'']\<rparr>
   \<and> extension ''a.obj'' = ''obj'' \<and> extension ''b.xobj'' = ''xobj''"
  by (simp add: new_AssembleTask_def extension_def endsWith_def Let_def)

section \<open>exportJson\<close>

lemma flatten_tr_Inr:
  assumes "flatten_tr tr = Inr xs"
  shows "\<exists>tx ty tz qw qx qy qz.
           translation tr = (tx, ty, tz) \<and> quaternion tr = Some (qw, qx, qy, qz)
         \<and> xs = [tx, ty, tz, qw, qx, qy, qz]"
  using assms by (auto simp: flatten_tr_def split: prod.splits option.splits)

lemma flatten_tr_defined:
  assumes "quaternion tr \<noteq> None"
  shows "\<exists>xs. flatten_tr tr = Inr xs"
  using assms by (auto simp: flatten_tr_def split: prod.splits option.splits)

lemma on_stage_names:
  "pieces (fst (on_stage stage expected st with_step acc)) = pieces (fst acc)
   \<and> meshesFile (fst (on_stage stage expected st with_step acc)) = meshesFile (fst acc)"
  by (cases acc) (simp add: on_stage_def)


lemma names_kept_handleData: "names_kept this \<Longrightarrow> names_kept (fst (handleData this d))"
  by (cases d) (simp_all add: names_kept_def Let_def split: sum.splits)

lemma names_kept_handleMsg:
  assumes "names_kept this"
  shows "names_kept (fst (handleMsg this msg))"
proof (cases msg)
  case (StatusMsg stage)
  with assms show ?thesis
    by (simp add: names_kept_def split: prod.splits) (metis fst_conv on_stage_names)
next
  case (DataMsg ds)
  with assms show ?thesis
    by (cases ds) (simp_all add: names_kept_handleData)
qed (use assms in simp_all)

lemma names_kept_after_call: "names_kept this \<Longrightarrow> names_kept (after_call this c)"
proof (cases c)
  case (Deliver msg)
  assume "names_kept this"
  with Deliver show ?thesis by (simp add: names_kept_handleMsg)
qed (simp_all add: names_kept_def beginAssemble_def set_currentStep_def setObject_def Let_def)

lemma names_kept_after_calls: "names_kept this \<Longrightarrow> names_kept (after_calls this calls)"
  unfolding after_calls_def
  by (induction calls arbitrary: this) (simp_all add: names_kept_after_call)

lemma names_kept_new: "new_AssembleTask files paths = Inr this \<Longrightarrow> names_kept this"
  by (auto simp: new_AssembleTask_def names_kept_def Let_def split: if_splits)

text \<open>
  Claim C8, amended. When \<open>exportJson\<close> returns a document: \<open>pred_trans_rots\<close> has one entry
  for each recorded step, the entry of a step has one entry for each pose recorded in that
  step (as many as there are files when every step was recorded with one pose per file), and
  each of those is \<open>[tx, ty, tz, qw, qx, qy, qz]\<close> of the pose in
  \<open>originalTransformations\<close>; \<open>gt_trans_rots\<close> is \<open>initial_transformations\<close> flattened the
  same way; \<open>removal_pieces\<close> and \<open>redundant_pieces\<close> are empty strings; \<open>pieces\<close> is the
  comma-joined list of the file names (\<open>names_kept\<close> holds after the constructor and any
  calls); \<open>mesh_scale\<close> and \<open>pointclouds\<close> are the cached values.
  The result depends on the fields it reads only, and a document is returned whenever every
  recorded pose has a quaternion.
\<close>

theorem exportJson_document:
  "(exportJson this nm = Inr doc \<longrightarrow>
      doc_name doc = nm \<and> num_parts doc = length (meshesFile this)
    \<and> length (gt_trans_rots doc) = length (initial_transformations this)
    \<and> (\<forall>i < length (initial_transformations this).
          \<exists>tx ty tz qw qx qy qz.
            translation (initial_transformations this ! i) = (tx, ty, tz)
          \<and> quaternion (initial_transformations this ! i) = Some (qw, qx, qy, qz)
          \<and> gt_trans_rots doc ! i = [tx, ty, tz, qw, qx, qy, qz])
    \<and> length (pred_trans_rots doc) = length (originalTransformations this)
    \<and> (\<forall>s < length (originalTransformations this).
          length (pred_trans_rots doc ! s) = length (originalTransformations this ! s)
        \<and> (\<forall>i < length (originalTransformations this ! s).
              \<exists>tx ty tz qw qx qy qz.
                translation (originalTransformations this ! s ! i) = (tx, ty, tz)
              \<and> quaternion (originalTransformations this ! s ! i) = Some (qw, qx, qy, qz)
              \<and> pred_trans_rots doc ! s ! i = [tx, ty, tz, qw, qx, qy, qz]))
    \<and> removal_pieces doc = [] \<and> redundant_pieces doc = []
    \<and> doc_pieces doc = join '','' (pieces this)
    \<and> (names_kept this \<longrightarrow> doc_pieces doc = join '','' (map name (meshesFile this)))
    \<and> mesh_scale doc = meshScale this \<and> pointclouds doc = pointClouds this
    \<and> (list_all (\<lambda>row. length row = length (meshesFile this)) (originalTransformations this)
          \<longrightarrow> list_all (\<lambda>row. length row = num_parts doc) (pred_trans_rots doc)))
   \<and> (meshesFile other = meshesFile this
        \<and> initial_transformations other = initial_transformations this
        \<and> originalTransformations other = originalTransformations this
        \<and> pieces other = pieces this \<and> meshScale other = meshScale this
        \<and> pointClouds other = pointClouds this \<longrightarrow>
       exportJson other nm = exportJson this nm)
   \<and> ((\<forall>tr \<in> set (initial_transformations this). quaternion tr \<noteq> None)
        \<and> (\<forall>row \<in> set (originalTransformations this). \<forall>tr \<in> set row. quaternion tr \<noteq> None) \<longrightarrow>
       (\<exists>d. exportJson this nm = Inr d))"
  (is "(?P \<longrightarrow> ?A) \<and> (?Q \<longrightarrow> ?B) \<and> (?R \<longrightarrow> ?C)")
proof -
  have a: ?A if ok: ?P
  proof -
    from ok obtain gt pred where
      gt: "map_err flatten_tr (initial_transformations this) = Inr gt" and
      pred: "map_err (map_err flatten_tr) (originalTransformations this) = Inr pred" and
      doc: "doc = \<lparr>doc_name = nm, num_parts = length (meshesFile this), gt_trans_rots = gt,
                   pred_trans_rots = pred, removal_pieces = [], redundant_pieces = [],
                   doc_pieces = join '','' (pieces this), mesh_scale = meshScale this,
                   pointclouds = pointClouds this\<rparr>"
      by (auto simp: exportJson_def split: sum.splits)
    have gt_nth: "\<exists>tx ty tz qw qx qy qz.
              translation (initial_transformations this ! i) = (tx, ty, tz)
            \<and> quaternion (initial_transformations this ! i) = Some (qw, qx, qy, qz)
            \<and> gt ! i = [tx, ty, tz, qw, qx, qy, qz]"
      if "i < length (initial_transformations this)" for i
      using flatten_tr_Inr [OF map_err_nth [OF gt that]] .
    have row: "map_err flatten_tr (originalTransformations this ! s) = Inr (pred ! s)"
      if "s < length (originalTransformations this)" for s
      using map_err_nth [OF pred that] .
    have pred_nth: "\<exists>tx ty tz qw qx qy qz.
                  translation (originalTransformations this ! s ! i) = (tx, ty, tz)
                \<and> quaternion (originalTransformations this ! s ! i) = Some (qw, qx, qy, qz)
                \<and> pred ! s ! i = [tx, ty, tz, qw, qx, qy, qz]"
      if "s < length (originalTransformations this)"
        and "i < length (originalTransformations this ! s)" for s i
      using flatten_tr_Inr [OF map_err_nth [OF row [OF that(1)] that(2)]] .
    have counts: "list_all (\<lambda>row. length row = length (meshesFile this)) pred"
      if all: "list_all (\<lambda>row. length row = length (meshesFile this))
                 (originalTransformations this)"
    proof -
      have "length (pred ! s) = length (meshesFile this)" if "s < length pred" for s
      proof -
        from that map_err_length [OF pred]
        have s: "s < length (originalTransformations this)" by simp
        with all have "length (originalTransformations this ! s) = length (meshesFile this)"
          by (simp add: list_all_length)
        with map_err_length [OF row [OF s]] show ?thesis by simp
      qed
      then show ?thesis by (simp add: list_all_length)
    qed
    show ?thesis
      using gt_nth pred_nth map_err_length [OF gt] map_err_length [OF pred]
        map_err_length [OF row] counts
      by (simp add: doc names_kept_def)
  qed
  have b: ?B if ?Q
    using that by (simp add: exportJson_def cong: sum.case_cong)
  have c: ?C if d: ?R
  proof -
    have "\<exists>gt. map_err flatten_tr (initial_transformations this) = Inr gt"
      using d by (intro map_err_total flatten_tr_defined) blast
    moreover have "\<exists>pred. map_err (map_err flatten_tr) (originalTransformations this) = Inr pred"
    proof (rule map_err_total)
      fix row assume "row \<in> set (originalTransformations this)"
      with d show "\<exists>y. map_err flatten_tr row = Inr y"
        by (intro map_err_total flatten_tr_defined) blast
    qed
    ultimately show ?thesis
      by (auto simp: exportJson_def)
  qed
  from a b c show ?thesis by blast
qed

lemma short_recorded:
  "after_calls demo_task short_calls =
     demo_task\<lparr>status := REQUESTED, totalSteps := 20,
       initial_transformations := [\<lparr>translation = (0, 0, 0), quaternion = Some (1, 0, 0, 0)\<rparr>],
       originalTransformations := [[\<lparr>translation = (3, 0, 0), quaternion = Some (1, 0, 0, 0)\<rparr>]],
       transformations := [[\<lparr>translation = (3, 0, 0), quaternion = Some (1, 0, 0, 0)\<rparr>]],
       currentStep := 0\<rparr>"
  by (simp add: after_calls_def short_calls_def beginAssemble_def demo_task_def
        demo_settings_def falsy_def demo_files_def raw_pose_def array_get_def Let_def
        normalized_def inverse_tr_def applyTransformation_def bind_err_def)

text \<open>
  Claim C8 as stated fails for the inner length: on a task of two files for which the backend
  reported one pose per message, the entry of the step has one pose, and \<open>num_parts\<close> is 2.
\<close>

theorem exportJson_inner_length_counterexample:
  "new_AssembleTask demo_files [] = Inr demo_task
   \<and> exportJson (after_calls demo_task short_calls) ''demo'' =
       Inr \<lparr>doc_name = ''demo'', num_parts = 2,
            gt_trans_rots = [[0, 0, 0, 1, 0, 0, 0]],
            pred_trans_rots = [[[3, 0, 0, 1, 0, 0, 0]]],
            removal_pieces = [], redundant_pieces = [],
            doc_pieces = ''a.obj,b.obj'', mesh_scale = 1, pointclouds = []\<rparr>
   \<and> length (meshesFile (after_calls demo_task short_calls)) = 2
   \<and> map length (originalTransformations (after_calls demo_task short_calls)) = [1]"
  unfolding short_recorded
  by (simp add: exportJson_def flatten_tr_def demo_task_def demo_files_def
        new_AssembleTask_def extension_def endsWith_def Let_def)

theorem exportJson_document_witness:
  "exportJson demo_recorded ''demo'' =
     Inr \<lparr>doc_name = ''demo'', num_parts = 2,
          gt_trans_rots = [[0, 0, 0, 1, 0, 0, 0], [1, 0, 0, 1, 0, 0, 0]],
          pred_trans_rots = [[[0, 0, 0, 1, 0, 0, 0], [2, 0, 0, 0, 1, 0, 0]]],
          removal_pieces = [], redundant_pieces = [],
          doc_pieces = ''a.obj,b.obj'', mesh_scale = 1, pointclouds = []\<rparr>
   \<and> names_kept demo_recorded
   \<and> list_all (\<lambda>tr. quaternion tr \<noteq> None) (initial_transformations demo_recorded)
   \<and> list_all (list_all (\<lambda>tr. quaternion tr \<noteq> None)) (originalTransformations demo_recorded)
   \<and> length (originalTransformations demo_recorded) = 1
   \<and> length (originalTransformations demo_recorded ! 0) = 2
   \<and> list_all (\<lambda>row. length row = length (meshesFile demo_recorded))
        (originalTransformations demo_recorded)
   \<and> exportJson (demo_recorded\<lparr>currentStep := - 2, status := COMPLETED\<rparr>) ''demo'' =
       exportJson demo_recorded ''demo''"
proof -
  let ?doc = "\<lparr>doc_name = ''demo'', num_parts = 2,
          gt_trans_rots = [[0, 0, 0, 1, 0, 0, 0], [1, 0, 0, 1, 0, 0, 0]],
          pred_trans_rots = [[[0, 0, 0, 1, 0, 0, 0], [2, 0, 0, 0, 1, 0, 0 :: real]]],
          removal_pieces = [], redundant_pieces = [],
          doc_pieces = ''a.obj,b.obj'', mesh_scale = 1, pointclouds = []\<rparr>"
  have e: "exportJson demo_recorded ''demo'' = Inr ?doc"
    by (simp add: exportJson_def flatten_tr_def demo_recorded_fields demo_files_def)
  have n: "names_kept demo_recorded"
    by (simp add: names_kept_def demo_recorded_fields demo_files_def)
  have q: "list_all (\<lambda>tr. quaternion tr \<noteq> None) (initial_transformations demo_recorded)"
    "list_all (list_all (\<lambda>tr. quaternion tr \<noteq> None)) (originalTransformations demo_recorded)"
    "length (originalTransformations demo_recorded) = 1"
    "length (originalTransformations demo_recorded ! 0) = 2"
    "list_all (\<lambda>row. length row = length (meshesFile demo_recorded))
       (originalTransformations demo_recorded)"
    by (simp_all add: demo_recorded_fields demo_files_def)
  from exportJson_document
    [of demo_recorded "''demo''" ?doc "demo_recorded\<lparr>currentStep := - 2, status := COMPLETED\<rparr>"]
  have "exportJson (demo_recorded\<lparr>currentStep := - 2, status := COMPLETED\<rparr>) ''demo'' =
          exportJson demo_recorded ''demo''"
    by simp
  with e n q show ?thesis by blast
qed

section \<open>The two histories\<close>

lemma history_aligned_new:
  "new_AssembleTask files paths = Inr this \<Longrightarrow> history_aligned this"
  by (auto simp: new_AssembleTask_def history_aligned_def Let_def split: if_splits)

lemma history_aligned_begin:
  "history_aligned this \<Longrightarrow> history_aligned (fst (beginAssemble this settings))"
  by (simp add: beginAssemble_def history_aligned_def Let_def)

lemma on_stage_histories:
  "transformations (fst (on_stage stage expected st with_step acc)) = transformations (fst acc)
   \<and> originalTransformations (fst (on_stage stage expected st with_step acc)) =
       originalTransformations (fst acc)"
  by (cases acc) (simp add: on_stage_def)

lemma history_aligned_handleData:
  assumes "history_aligned this"
  shows "history_aligned (fst (handleData this d))"
proof (cases d)
  case (AssembleTransformationMsg trs rotation stp iter)
  show ?thesis
  proof (cases "map_err (normalized (initial_transformations this) rotation) (enumerate 0 trs)")
    case (Inl e)
    with assms AssembleTransformationMsg show ?thesis by simp
  next
    case (Inr norm)
    from map_err_length [OF Inr] have "length norm = length trs" by simp
    with assms AssembleTransformationMsg Inr show ?thesis
      by (simp add: history_aligned_def Let_def)
  qed
qed (use assms in \<open>simp_all add: history_aligned_def\<close>)

lemma history_aligned_handleMsg:
  assumes "history_aligned this"
  shows "history_aligned (fst (handleMsg this msg))"
proof (cases msg)
  case (StatusMsg stage)
  with assms show ?thesis
    by (simp add: history_aligned_def on_stage_histories split: prod.splits)
      (metis fst_conv on_stage_histories)
next
  case (DataMsg ds)
  with assms show ?thesis
    by (cases ds) (simp_all add: history_aligned_handleData)
qed (use assms in simp_all)

lemma history_aligned_processMsgs:
  "history_aligned this \<Longrightarrow> history_aligned (fst (processMsgs this msgs))"
proof (induction msgs arbitrary: this)
  case Nil
  then show ?case by simp
next
  case (Cons msg msgs)
  obtain t1 e1 r1 where h: "handleMsg this msg = (t1, e1, r1)"
    by (cases "handleMsg this msg") auto
  have t1: "history_aligned t1"
    using history_aligned_handleMsg [OF Cons.prems, of msg] by (simp add: h)
  show ?case
  proof (cases r1)
    case None
    with Cons.IH [OF t1] show ?thesis
      by (auto simp: h split: prod.splits)
  next
    case (Some e)
    with t1 show ?thesis by (simp add: h)
  qed
qed

lemma history_aligned_startAssemble:
  assumes "history_aligned this"
  shows "history_aligned (fst (startAssemble this settings msgs))"
proof -
  obtain t1 s1 e1 r1 where b: "beginAssemble this settings = (t1, s1, e1, r1)"
    by (cases "beginAssemble this settings") auto
  have t1: "history_aligned t1"
    using history_aligned_begin [OF assms, of settings] by (simp add: b)
  show ?thesis
  proof (cases r1)
    case None
    with history_aligned_processMsgs [OF t1, of msgs] show ?thesis
      by (auto simp: startAssemble_def b split: prod.splits)
  next
    case (Some e)
    with t1 show ?thesis by (simp add: startAssemble_def b)
  qed
qed

lemma history_aligned_set_currentStep:
  "history_aligned this \<Longrightarrow> history_aligned (fst (set_currentStep this step))"
  by (simp add: set_currentStep_def history_aligned_def)

lemma history_aligned_setObject:
  "history_aligned this \<Longrightarrow> history_aligned (fst (setObject this index obj))"
  by (simp add: setObject_def history_aligned_def Let_def)

lemma history_aligned_after_call:
  "history_aligned this \<Longrightarrow> history_aligned (after_call this c)"
  by (cases c)
    (simp_all add: history_aligned_begin history_aligned_handleMsg
       history_aligned_set_currentStep history_aligned_setObject)

lemma history_aligned_after_calls:
  "history_aligned this \<Longrightarrow> history_aligned (after_calls this calls)"
  unfolding after_calls_def
  by (induction calls arbitrary: this) (simp_all add: history_aligned_after_call)

lemma history_aligned_nth:
  assumes "history_aligned this"
  shows "length (transformations this) = length (originalTransformations this)
       \<and> (\<forall>s < length (transformations this).
            length (transformations this ! s) = length (originalTransformations this ! s))"
proof -
  from assms have m: "map length (transformations this) = map length (originalTransformations this)"
    by (simp add: history_aligned_def)
  then have len: "length (transformations this) = length (originalTransformations this)"
    by (rule map_eq_imp_length_eq)
  have "length (transformations this ! s) = length (originalTransformations this ! s)"
    if "s < length (transformations this)" for s
  proof -
    have "map length (transformations this) ! s = map length (originalTransformations this) ! s"
      by (simp only: m)
    with that len show ?thesis by simp
  qed
  with len show ?thesis by blast
qed

text \<open>
  Claim C9. After the constructor and any calls, and after a whole \<open>startAssemble\<close> on such
  a task, \<open>transformations\<close> and \<open>originalTransformations\<close> have the same length, and at
  each step their entries have the same number of poses.
\<close>

theorem histories_stay_aligned:
  assumes "new_AssembleTask files paths = Inr this0"
  shows "length (transformations (after_calls this0 calls)) =
           length (originalTransformations (after_calls this0 calls))
       \<and> (\<forall>s < length (transformations (after_calls this0 calls)).
            length (transformations (after_calls this0 calls) ! s) =
              length (originalTransformations (after_calls this0 calls) ! s))
       \<and> length (transformations (fst (startAssemble (after_calls this0 calls) settings msgs))) =
           length (originalTransformations
                     (fst (startAssemble (after_calls this0 calls) settings msgs)))
       \<and> (\<forall>s < length (transformations
                          (fst (startAssemble (after_calls this0 calls) settings msgs))).
            length (transformations
                      (fst (startAssemble (after_calls this0 calls) settings msgs)) ! s) =
              length (originalTransformations
                      (fst (startAssemble (after_calls this0 calls) settings msgs)) ! s))"
proof -
  have a: "history_aligned (after_calls this0 calls)"
    by (rule history_aligned_after_calls [OF history_aligned_new [OF assms]])
  have b: "history_aligned (fst (startAssemble (after_calls this0 calls) settings msgs))"
    by (rule history_aligned_startAssemble [OF a])
  from history_aligned_nth [OF a] history_aligned_nth [OF b] show ?thesis by blast
qed

theorem histories_stay_aligned_witness:
  "new_AssembleTask demo_files [] = Inr demo_task
   \<and> after_calls demo_task demo_calls = demo_recorded
   \<and> length (transformations (after_calls demo_task demo_calls)) =
       length (originalTransformations (after_calls demo_task demo_calls))
   \<and> length (transformations demo_recorded) = 1
   \<and> length (transformations demo_recorded ! 0) = 2
   \<and> length (originalTransformations demo_recorded ! 0) = 2"
proof -
  from histories_stay_aligned [OF demo_task_constructed, of demo_calls demo_settings "[]"]
  have "length (transformations (after_calls demo_task demo_calls)) =
          length (originalTransformations (after_calls demo_task demo_calls))"
    by blast
  then show ?thesis
    by (simp add: demo_task_constructed demo_recorded_reached demo_recorded_fields)
qed

end
